theory Spec2Isabelle
  imports Main "HOL-Library.Word" "HOL-Library.Multiset"
begin

section \<open>The task record and the process-wide state\<close>

text \<open>
  The embedding follows \<^verbatim>\<open>todo-app/main.cpp\<close>. The enumeration \<^verbatim>\<open>Priority\<close> has the
  enumerators 1 to 5 and no fixed underlying type, so a value of the type may also hold
  0, 6 or 7 (after a \<^verbatim>\<open>static_cast\<close>); \<^verbatim>\<open>validateTask\<close> tests for exactly that, and the
  type is therefore modelled by its integer value. \<^verbatim>\<open>time_t\<close> is a signed 64-bit integer.
  The counter \<^verbatim>\<open>nextId\<close> and the field \<^verbatim>\<open>id\<close> are C++ \<^verbatim>\<open>int\<close>; their overflow is undefined
  behaviour and is not modelled: they are mathematical integers here. The field \<^verbatim>\<open>id\<close> is
  called \<open>task_id\<close> and the parameter \<^verbatim>\<open>comp\<close> is called \<open>cmpl\<close>, since \<open>id\<close> and \<open>comp\<close> are
  constants of HOL.
\<close>

type_synonym Priority = int

abbreviation HIGHEST :: Priority where "HIGHEST \<equiv> 1"
abbreviation HIGH :: Priority where "HIGH \<equiv> 2"
abbreviation LOW :: Priority where "LOW \<equiv> 4"
abbreviation LOWEST :: Priority where "LOWEST \<equiv> 5"

type_synonym time_t = "64 word"

record Task =
  task_id :: int
  description :: string
  priority :: Priority
  completed :: bool
  dueDate :: time_t

text \<open>
  The static members \<^verbatim>\<open>Task::tasks\<close> and \<^verbatim>\<open>Task::nextId\<close>, the text written to
  \<^verbatim>\<open>cerr\<close> so far, and the files the process can see: \<open>disk p\<close> is the character
  sequence an \<^verbatim>\<open>ifstream\<close> opened on \<open>p\<close> delivers (\<open>None\<close> when it cannot be opened),
  and \<open>locked p\<close> holds when an \<^verbatim>\<open>ofstream\<close> cannot be opened on \<open>p\<close>. A file that was
  written delivers the characters written to it: the translation of line ends by the
  platform's text mode and changes made to the files by others are not modelled. Nothing
  here depends on \<^verbatim>\<open>cout\<close>, which is left out.
\<close>

record world =
  tasks :: "Task list"
  nextId :: int
  cerr :: string
  disk :: "string \<Rightarrow> string option"
  locked :: "string \<Rightarrow> bool"

definition initial :: "(string \<Rightarrow> string option) \<Rightarrow> (string \<Rightarrow> bool) \<Rightarrow> world" where
  "initial d l = \<lparr>tasks = [], nextId = 1, cerr = [], disk = d, locked = l\<rparr>"

section \<open>Formatted output of integers\<close>

definition digit_char :: "int \<Rightarrow> char" where
  "digit_char n = char_of (48 + n)"

function show_dec :: "int \<Rightarrow> string" where
  "show_dec n = (if n < 10 then [digit_char n] else show_dec (n div 10) @ [digit_char (n mod 10)])"
  by pat_completeness auto
termination
  by (relation "measure nat") auto

declare show_dec.simps [simp del]

text \<open>\<^verbatim>\<open>operator<<\<close> on a signed integer, in the default decimal format.\<close>

definition show_int :: "int \<Rightarrow> string" where
  "show_int i = (if i < 0 then CHR ''-'' # show_dec (- i) else show_dec i)"

text \<open>\<^verbatim>\<open>operator<<\<close> on a \<^verbatim>\<open>bool\<close> without \<^verbatim>\<open>boolalpha\<close>.\<close>

definition show_bool :: "bool \<Rightarrow> string" where
  "show_bool b = (if b then ''1'' else ''0'')"

section \<open>Validation, construction and the store operations\<close>

text \<open>\<^verbatim>\<open>validateTask\<close> returns its verdict and the text of \<^verbatim>\<open>cerr\<close> after it.\<close>

definition validateTask :: "string \<Rightarrow> Priority \<Rightarrow> string \<Rightarrow> bool \<times> string" where
  "validateTask desc prio err =
     (if desc = [] then (False, err @ ''Error: Description cannot be empty.\<newline>'')
      else if prio < HIGHEST \<or> prio > LOWEST
        then (False, err @ ''Error: Priority must be between 1 and 5.\<newline>'')
      else (True, err))"

text \<open>The constructor: \<^verbatim>\<open>id(nextId++)\<close>, \<^verbatim>\<open>completed(false)\<close>.\<close>

definition new_Task :: "string \<Rightarrow> Priority \<Rightarrow> time_t \<Rightarrow> world \<Rightarrow> Task \<times> world" where
  "new_Task desc prio due w =
     (\<lparr>task_id = nextId w, description = desc, priority = prio, completed = False,
       dueDate = due\<rparr>,
      w\<lparr>nextId := nextId w + 1\<rparr>)"



text \<open>
  The body of \<^verbatim>\<open>updateTask\<close> for the task whose id matches: the four optional fields in
  the order of the source, each validation followed by its assignment. \<open>Inl\<close> is an early
  \<^verbatim>\<open>return\<close>, carrying the task as it is at that moment.
\<close>

definition update_desc :: "string option \<Rightarrow> Task \<times> string \<Rightarrow> Task \<times> string + Task \<times> string" where
  "update_desc desc r =
     (case r of (task, err) \<Rightarrow>
        (case desc of
           None \<Rightarrow> Inr (task, err)
         | Some d \<Rightarrow>
             (case validateTask d (priority task) err of
                (False, e) \<Rightarrow> Inl (task, e @ ''Update failed due to invalid description.\<newline>'')
              | (True, e) \<Rightarrow> Inr (task\<lparr>description := d\<rparr>, e))))"

definition update_prio :: "Priority option \<Rightarrow> Task \<times> string \<Rightarrow> Task \<times> string + Task \<times> string" where
  "update_prio prio r =
     (case r of (task, err) \<Rightarrow>
        (case prio of
           None \<Rightarrow> Inr (task, err)
         | Some p \<Rightarrow>
             (case validateTask (description task) p err of
                (False, e) \<Rightarrow> Inl (task, e @ ''Update failed due to invalid priority.\<newline>'')
              | (True, e) \<Rightarrow> Inr (task\<lparr>priority := p\<rparr>, e))))"

definition update_rest :: "bool option \<Rightarrow> time_t option \<Rightarrow> Task \<Rightarrow> Task" where
  "update_rest cmpl due task =
     (let t1 = (case cmpl of None \<Rightarrow> task | Some c \<Rightarrow> task\<lparr>completed := c\<rparr>)
      in (case due of None \<Rightarrow> t1 | Some d \<Rightarrow> t1\<lparr>dueDate := d\<rparr>))"

definition update_body ::
  "string option \<Rightarrow> Priority option \<Rightarrow> bool option \<Rightarrow> time_t option \<Rightarrow> Task \<times> string
     \<Rightarrow> Task \<times> string" where
  "update_body desc prio cmpl due r =
     (case update_desc desc r of
        Inl r1 \<Rightarrow> r1
      | Inr r1 \<Rightarrow>
          (case update_prio prio r1 of
             Inl r2 \<Rightarrow> r2
           | Inr (t2, e2) \<Rightarrow> (update_rest cmpl due t2, e2)))"

text \<open>
  The loop of \<^verbatim>\<open>updateTask\<close> over the vector: the first task with the id is updated in
  place and the function returns; \<open>None\<close> when the loop ends without a match.
\<close>

fun update_loop ::
  "int \<Rightarrow> string option \<Rightarrow> Priority option \<Rightarrow> bool option \<Rightarrow> time_t option \<Rightarrow> Task list
     \<Rightarrow> string \<Rightarrow> (Task list \<times> string) option" where
  "update_loop i desc prio cmpl due [] err = None"
| "update_loop i desc prio cmpl due (task # ts) err =
     (if task_id task = i
      then (case update_body desc prio cmpl due (task, err) of
              (task', err') \<Rightarrow> Some (task' # ts, err'))
      else (case update_loop i desc prio cmpl due ts err of
              None \<Rightarrow> None
            | Some (ts', err') \<Rightarrow> Some (task # ts', err')))"

definition updateTask ::
  "int \<Rightarrow> string option \<Rightarrow> Priority option \<Rightarrow> bool option \<Rightarrow> time_t option \<Rightarrow> world \<Rightarrow> world"
  where
  "updateTask i desc prio cmpl due w =
     (case update_loop i desc prio cmpl due (tasks w) (cerr w) of
        Some (ts, err) \<Rightarrow> w\<lparr>tasks := ts, cerr := err\<rparr>
      | None \<Rightarrow> w\<lparr>cerr := cerr w @ ''Warning: No task found with ID '' @ show_int i @ ''.\<newline>''\<rparr>)"




section \<open>Saving\<close>

text \<open>One line of the file: \<^verbatim>\<open>description|priority completed dueDate\<close> and a newline.\<close>

definition task_line :: "Task \<Rightarrow> string" where
  "task_line task =
     description task @ ''|'' @ show_int (priority task) @ '' '' @ show_bool (completed task)
       @ '' '' @ show_int (sint (dueDate task)) @ ''\<newline>''"

text \<open>
  The loop of \<^verbatim>\<open>saveTasksToFile\<close>: the text written to the file so far and the world
  (only \<^verbatim>\<open>cerr\<close> is written to).
\<close>

fun save_loop :: "Task list \<Rightarrow> string \<times> world \<Rightarrow> string \<times> world" where
  "save_loop [] r = r"
| "save_loop (task # ts) (out, w) =
     (case validateTask (description task) (priority task) (cerr w) of
        (False, e) \<Rightarrow>
          save_loop ts
            (out, w\<lparr>cerr := e @ ''Error: Invalid Task with ID '' @ show_int (task_id task)
                      @ '' - not saved.\<newline>''\<rparr>)
      | (True, e) \<Rightarrow> save_loop ts (out @ task_line task, w\<lparr>cerr := e\<rparr>))"

definition saveTasksToFile :: "string \<Rightarrow> world \<Rightarrow> world" where
  "saveTasksToFile filename w =
     (if locked w filename
      then w\<lparr>cerr := cerr w @ ''Error: Unable to open file for saving.\<newline>''\<rparr>
      else (case save_loop (tasks w) ([], w) of
              (out, w') \<Rightarrow> w'\<lparr>disk := (disk w')(filename \<mapsto> out)\<rparr>))"

section \<open>The input stream\<close>

text \<open>
  An \<^verbatim>\<open>ifstream\<close> in the state the loader can observe: the characters not yet read, and
  whether \<^verbatim>\<open>good()\<close> holds (none of \<^verbatim>\<open>eofbit\<close>, \<^verbatim>\<open>failbit\<close>, \<^verbatim>\<open>badbit\<close> is set).
  An input function called on a stream that is not good extracts nothing.
\<close>

record ifstream =
  buf :: string
  good :: bool

definition isspace :: "char \<Rightarrow> bool" where
  "isspace c \<longleftrightarrow> c = CHR '' '' \<or> (9 \<le> (of_char c :: int) \<and> (of_char c :: int) \<le> 13)"

definition isdigit :: "char \<Rightarrow> bool" where
  "isdigit c \<longleftrightarrow> 48 \<le> (of_char c :: int) \<and> (of_char c :: int) \<le> 57"

definition dec_val :: "string \<Rightarrow> int" where
  "dec_val ds = foldl (\<lambda>a c. 10 * a + ((of_char c :: int) - 48)) 0 ds"

text \<open>
  The text of one numeric field as the extraction accepts it in full: an optional sign and
  at least one digit, nothing else; \<open>field_value\<close> is the integer it denotes.
\<close>

definition field_value :: "string \<Rightarrow> int option" where
  "field_value s =
     (case s of
        [] \<Rightarrow> None
      | c # cs \<Rightarrow>
          (let ds = (if c = CHR ''-'' \<or> c = CHR ''+'' then cs else c # cs)
           in if ds \<noteq> [] \<and> list_all isdigit ds
              then Some (if c = CHR ''-'' then - dec_val ds else dec_val ds)
              else None))"

text \<open>\<^verbatim>\<open>peek()\<close>: the next character, \<open>None\<close> for \<^verbatim>\<open>EOF\<close>.\<close>

definition peek :: "ifstream \<Rightarrow> char option" where
  "peek f = (if \<not> good f \<or> buf f = [] then None else Some (hd (buf f)))"

text \<open>
  \<^verbatim>\<open>getline(file, desc, delim)\<close>: the characters before the first \<open>delim\<close>, which is
  extracted and dropped; without a \<open>delim\<close> everything is read and \<^verbatim>\<open>eofbit\<close> is set.
\<close>

definition getline :: "char \<Rightarrow> ifstream \<Rightarrow> string \<times> ifstream" where
  "getline delim f =
     (if \<not> good f then ([], f)
      else (let pre = takeWhile (\<lambda>c. c \<noteq> delim) (buf f)
            in case dropWhile (\<lambda>c. c \<noteq> delim) (buf f) of
                 [] \<Rightarrow> (pre, \<lparr>buf = [], good = False\<rparr>)
               | c # rest \<Rightarrow> (pre, \<lparr>buf = rest, good = True\<rparr>)))"

text \<open>
  \<^verbatim>\<open>operator>>\<close> into a signed integer with the values \<open>lo\<close> to \<open>hi\<close>, in the default
  decimal format: leading white space is skipped, then an optional sign and the longest
  run of digits are read. The stream stays good only when a digit was read, the value
  is in range, and the run of digits ended before the end of the file. The value stored
  on failure is 0, or the nearest bound on overflow.
\<close>

definition extract_num :: "int \<Rightarrow> int \<Rightarrow> ifstream \<Rightarrow> int \<times> ifstream" where
  "extract_num lo hi f =
     (if \<not> good f then (0, f)
      else (case dropWhile isspace (buf f) of
              [] \<Rightarrow> (0, \<lparr>buf = [], good = False\<rparr>)
            | c # cs \<Rightarrow>
                (let s2 = (if c = CHR ''-'' \<or> c = CHR ''+'' then cs else c # cs);
                     ds = takeWhile isdigit s2;
                     s3 = dropWhile isdigit s2;
                     v = (if c = CHR ''-'' then - dec_val ds else dec_val ds)
                 in if ds = [] then (0, \<lparr>buf = s3, good = False\<rparr>)
                    else if v < lo then (lo, \<lparr>buf = s3, good = False\<rparr>)
                    else if hi < v then (hi, \<lparr>buf = s3, good = False\<rparr>)
                    else (v, \<lparr>buf = s3, good = (s3 \<noteq> [])\<rparr>))))"

definition extract_int :: "ifstream \<Rightarrow> int \<times> ifstream" where
  "extract_int f = extract_num (- (2 ^ 31)) (2 ^ 31 - 1) f"

definition extract_time_t :: "ifstream \<Rightarrow> time_t \<times> ifstream" where
  "extract_time_t f =
     (case extract_num (- (2 ^ 63)) (2 ^ 63 - 1) f of (v, f') \<Rightarrow> (word_of_int v, f'))"

text \<open>
  \<^verbatim>\<open>ignore(numeric_limits<streamsize>::max(), '\n')\<close>: everything up to and including the
  next newline; \<^verbatim>\<open>eofbit\<close> when the file ends first.
\<close>

definition ignore_line :: "ifstream \<Rightarrow> ifstream" where
  "ignore_line f =
     (if \<not> good f then f
      else (case dropWhile (\<lambda>c. c \<noteq> CHR 0x0A) (buf f) of
              [] \<Rightarrow> \<lparr>buf = [], good = False\<rparr>
            | c # rest \<Rightarrow> \<lparr>buf = rest, good = True\<rparr>))"

section \<open>Loading\<close>

text \<open>
  One turn of the \<^verbatim>\<open>while (true)\<close> loop of \<^verbatim>\<open>loadTasksFromFile\<close>, from \<^verbatim>\<open>getline\<close> to the
  validation: \<open>Stop\<close> is a \<^verbatim>\<open>break\<close>, \<open>Skip\<close> the \<^verbatim>\<open>continue\<close> of an invalid task, and
  \<open>Line\<close> carries the fields of a task to construct.
\<close>

datatype turn = Stop | Skip ifstream | Line string int int time_t ifstream

definition read_turn :: "ifstream \<Rightarrow> turn" where
  "read_turn file =
     (case getline CHR ''|'' file of (desc, f1) \<Rightarrow>
        if \<not> good f1 then Stop
        else (case extract_int f1 of (prioInt, f2) \<Rightarrow>
          if \<not> good f2 then Stop
          else (case extract_int f2 of (compInt, f3) \<Rightarrow>
            if \<not> good f3 then Stop
            else (case extract_time_t f3 of (due, f4) \<Rightarrow>
              if \<not> good f4 then Stop
              else (let f5 = ignore_line f4
                    in if desc = [] \<or> prioInt < HIGHEST \<or> prioInt > LOWEST then Skip f5
                       else Line desc prioInt compInt due f5)))))"

lemma dropWhile_Cons_length: "dropWhile P xs = y # ys \<Longrightarrow> length ys < length xs"
  using length_dropWhile_le [of P xs] by simp

lemma getline_length: "length (buf (snd (getline d f))) \<le> length (buf f)"
  by (auto simp: getline_def Let_def split: list.splits dest: dropWhile_Cons_length)

lemma getline_good_length:
  "good f \<Longrightarrow> good (snd (getline d f)) \<Longrightarrow> length (buf (snd (getline d f))) < length (buf f)"
  by (auto simp: getline_def Let_def split: list.splits dest: dropWhile_Cons_length)

lemma extract_num_length: "length (buf (snd (extract_num lo hi f))) \<le> length (buf f)"
proof (cases "dropWhile isspace (buf f)")
  case Nil
  then show ?thesis by (simp add: extract_num_def del: dropWhile_eq_Nil_conv)
next
  case (Cons c cs)
  have a: "length cs < length (buf f)" using Cons by (rule dropWhile_Cons_length)
  have "length (dropWhile isdigit cs) \<le> length cs" by (rule length_dropWhile_le)
  with a have d1: "length (dropWhile isdigit cs) \<le> length (buf f)" by linarith
  have "length (dropWhile isdigit (c # cs)) \<le> length (c # cs)" by (rule length_dropWhile_le)
  with a have d2: "length (dropWhile isdigit (c # cs)) \<le> length (buf f)" by simp
  show ?thesis
    using d1 d2 Cons by (auto simp: extract_num_def Let_def)
qed

lemma extract_int_length: "length (buf (snd (extract_int f))) \<le> length (buf f)"
  by (simp add: extract_int_def extract_num_length)

lemma extract_time_t_length: "length (buf (snd (extract_time_t f))) \<le> length (buf f)"
  using extract_num_length [of "- (2 ^ 63)" "2 ^ 63 - 1" f]
  by (cases "extract_num (- (2 ^ 63)) (2 ^ 63 - 1) f") (simp add: extract_time_t_def)

lemma ignore_line_length: "length (buf (ignore_line f)) \<le> length (buf f)"
  by (auto simp: ignore_line_def split: list.splits dest: dropWhile_Cons_length)

lemma read_turn_length:
  assumes "good file"
  shows "read_turn file = Skip f' \<Longrightarrow> length (buf f') < length (buf file)"
    and "read_turn file = Line d p c u f' \<Longrightarrow> length (buf f') < length (buf file)"
proof -
  obtain desc f1 where r1: "getline CHR ''|'' file = (desc, f1)" by force
  obtain prioInt f2 where r2: "extract_int f1 = (prioInt, f2)" by force
  obtain compInt f3 where r3: "extract_int f2 = (compInt, f3)" by force
  obtain due f4 where r4: "extract_time_t f3 = (due, f4)" by force
  have l2: "length (buf f2) \<le> length (buf f1)" using extract_int_length [of f1] r2 by simp
  have l3: "length (buf f3) \<le> length (buf f2)" using extract_int_length [of f2] r3 by simp
  have l4: "length (buf f4) \<le> length (buf f3)" using extract_time_t_length [of f3] r4 by simp
  have l5: "length (buf (ignore_line f4)) \<le> length (buf f4)" by (rule ignore_line_length)
  have l1: "good f1 \<Longrightarrow> length (buf f1) < length (buf file)"
    using getline_good_length [OF assms, of "CHR ''|''"] r1 by simp
  have step: "good f1 \<Longrightarrow> length (buf (ignore_line f4)) < length (buf file)"
    using l1 l2 l3 l4 l5 by linarith
  show "read_turn file = Skip f' \<Longrightarrow> length (buf f') < length (buf file)"
    using step by (auto simp: read_turn_def r1 r2 r3 r4 Let_def split: if_splits)
  show "read_turn file = Line d p c u f' \<Longrightarrow> length (buf f') < length (buf file)"
    using step by (auto simp: read_turn_def r1 r2 r3 r4 Let_def split: if_splits)
qed

text \<open>
  The loop itself. \<^verbatim>\<open>static_cast<Priority>(prioInt)\<close> keeps the value, and
  \<^verbatim>\<open>static_cast<bool>(compInt)\<close> is the test \<open>compInt \<noteq> 0\<close>.
\<close>

function load_loop :: "ifstream \<Rightarrow> world \<Rightarrow> world" where
  "load_loop file w =
     (if \<not> good file \<or> peek file = None then w
      else (case read_turn file of
              Stop \<Rightarrow> w
            | Skip f' \<Rightarrow>
                load_loop f' (w\<lparr>cerr := cerr w @ ''Skipping invalid task from file.\<newline>''\<rparr>)
            | Line desc prioInt compInt due f' \<Rightarrow>
                (case new_Task desc prioInt due w of
                   (task, w') \<Rightarrow>
                     load_loop f'
                       (w'\<lparr>tasks := tasks w' @ [task\<lparr>completed := (compInt \<noteq> 0)\<rparr>]\<rparr>))))"
  by pat_completeness auto
termination
  by (relation "measure (\<lambda>(file, w). length (buf file))") (auto dest: read_turn_length)

declare load_loop.simps [simp del]

text \<open>The loop that looks for the largest id, starting from \<^verbatim>\<open>maxID = 0\<close>.\<close>

fun max_loop :: "Task list \<Rightarrow> int \<Rightarrow> int" where
  "max_loop [] maxID = maxID"
| "max_loop (task # ts) maxID = max_loop ts (if task_id task > maxID then task_id task else maxID)"

definition loadTasksFromFile :: "string \<Rightarrow> world \<Rightarrow> world" where
  "loadTasksFromFile filename w =
     (case disk w filename of
        None \<Rightarrow> w
      | Some content \<Rightarrow>
          (let w1 = load_loop \<lparr>buf = content, good = True\<rparr> (w\<lparr>tasks := []\<rparr>);
               maxID = max_loop (tasks w1) 0
           in w1\<lparr>nextId := maxID + 1\<rparr>))"

section \<open>Notions used to state the properties\<close>

text \<open>
  The text of a line of the file, from the texts of its four fields: the description, the
  delimiter, and the three numeric fields separated by one space.
\<close>

definition file_line :: "string \<Rightarrow> string \<Rightarrow> string \<Rightarrow> string \<Rightarrow> string" where
  "file_line desc pf cf df = desc @ ''|'' @ pf @ '' '' @ cf @ '' '' @ df @ ''\<newline>''"

text \<open>
  A text at the place of a numeric field from which no number can be read: after the
  white space and an optional sign there is no digit.
\<close>

definition not_numeric :: "string \<Rightarrow> bool" where
  "not_numeric s =
     (case dropWhile isspace s of
        [] \<Rightarrow> True
      | c # cs \<Rightarrow> takeWhile isdigit (if c = CHR ''-'' \<or> c = CHR ''+'' then cs else c # cs) = [])"

text \<open>The range of a C++ \<^verbatim>\<open>int\<close> and of a \<^verbatim>\<open>time_t\<close>.\<close>

definition in_int :: "int \<Rightarrow> bool" where
  "in_int v \<longleftrightarrow> - (2 ^ 31) \<le> v \<and> v \<le> 2 ^ 31 - 1"

definition in_time_t :: "int \<Rightarrow> bool" where
  "in_time_t v \<longleftrightarrow> - (2 ^ 63) \<le> v \<and> v \<le> 2 ^ 63 - 1"


text \<open>
  The operations that change the state, and their runs: a run from \<open>w\<close> is a list of
  operations, each with the world it leaves. The display operations only write to
  \<^verbatim>\<open>cout\<close> and are left out.
\<close>

datatype op =
    Add string Priority time_t
  | Update int "string option" "Priority option" "bool option" "time_t option"
  | Delete int
  | SortByPriority bool
  | SortByDueDate bool
  | Save string
  | Load string






text \<open>Everything of a task but its id.\<close>

definition task_fields :: "Task \<Rightarrow> string \<times> Priority \<times> bool \<times> time_t" where
  "task_fields task = (description task, priority task, completed task, dueDate task)"

text \<open>The tasks of a list with the ids \<open>k\<close>, \<open>k + 1\<close>, ... in this order.\<close>

fun renumber :: "int \<Rightarrow> Task list \<Rightarrow> Task list" where
  "renumber k [] = []"
| "renumber k (task # ts) = task\<lparr>task_id := k\<rparr> # renumber (k + 1) ts"

section \<open>Decimal output read back\<close>

lemma dec_val_Nil: "dec_val [] = 0"
  by (simp add: dec_val_def)

lemma dec_val_snoc: "dec_val (ds @ [c]) = 10 * dec_val ds + (of_char c - 48)"
  by (simp add: dec_val_def)

lemma of_char_digit_char: "0 \<le> k \<Longrightarrow> k < 10 \<Longrightarrow> (of_char (digit_char k) :: int) = 48 + k"
  by (simp add: digit_char_def)

lemma isdigit_digit_char: "0 \<le> k \<Longrightarrow> k < 10 \<Longrightarrow> isdigit (digit_char k)"
  by (simp add: isdigit_def of_char_digit_char)

lemma show_dec_digits: "0 \<le> n \<Longrightarrow> \<forall>c \<in> set (show_dec n). isdigit c"
proof (induction n rule: show_dec.induct)
  case (1 n)
  show ?case
  proof (cases "n < 10")
    case True
    with "1.prems" show ?thesis by (simp add: show_dec.simps [of n] isdigit_digit_char)
  next
    case False
    then have "0 \<le> n div 10" by simp
    with False "1.IH" have "\<forall>c \<in> set (show_dec (n div 10)). isdigit c" by simp
    moreover have "isdigit (digit_char (n mod 10))" by (simp add: isdigit_digit_char)
    ultimately show ?thesis using False by (simp add: show_dec.simps [of n])
  qed
qed

lemma show_dec_not_Nil: "show_dec n \<noteq> []"
  by (simp add: show_dec.simps [of n])

lemma dec_val_show_dec: "0 \<le> n \<Longrightarrow> dec_val (show_dec n) = n"
proof (induction n rule: show_dec.induct)
  case (1 n)
  show ?case
  proof (cases "n < 10")
    case True
    with "1.prems" show ?thesis
      by (simp add: show_dec.simps [of n] dec_val_def of_char_digit_char)
  next
    case False
    then have "0 \<le> n div 10" by simp
    with False "1.IH" have "dec_val (show_dec (n div 10)) = n div 10" by simp
    then show ?thesis using False
      by (simp add: show_dec.simps [of n] dec_val_snoc of_char_digit_char)
  qed
qed

section \<open>The input functions on well-formed text\<close>

lemma takeWhile_run: "\<forall>x \<in> set xs. P x \<Longrightarrow> \<not> P y \<Longrightarrow> takeWhile P (xs @ y # ys) = xs"
  by (induction xs) auto

lemma dropWhile_run: "\<forall>x \<in> set xs. P x \<Longrightarrow> \<not> P y \<Longrightarrow> dropWhile P (xs @ y # ys) = y # ys"
  by (induction xs) auto

lemma isdigit_not_isspace: "isdigit c \<Longrightarrow> \<not> isspace c"
  by (auto simp: isdigit_def isspace_def)

lemma isdigit_not_sign: "isdigit c \<Longrightarrow> c \<noteq> CHR ''-'' \<and> c \<noteq> CHR ''+''"
  by (auto simp: isdigit_def)

lemma sign_not_isspace: "\<not> isspace CHR ''-''" "\<not> isspace CHR ''+''"
  by (simp_all add: isspace_def)

lemma sign_not_isdigit: "\<not> isdigit CHR ''-''" "\<not> isdigit CHR ''+''"
  by (simp_all add: isdigit_def)

lemma takeWhile_neq: "d \<notin> set xs \<Longrightarrow> takeWhile (\<lambda>c. c \<noteq> d) (xs @ d # ys) = xs"
  by (induction xs) auto

lemma dropWhile_neq: "d \<notin> set xs \<Longrightarrow> dropWhile (\<lambda>c. c \<noteq> d) (xs @ d # ys) = d # ys"
  by (induction xs) auto

lemma dropWhile_neq_Nil: "d \<notin> set xs \<Longrightarrow> dropWhile (\<lambda>c. c \<noteq> d) xs = []"
  by (induction xs) auto

lemma getline_field:
  "d \<notin> set desc \<Longrightarrow>
   getline d \<lparr>buf = desc @ d # rest, good = True\<rparr> = (desc, \<lparr>buf = rest, good = True\<rparr>)"
  by (simp add: getline_def takeWhile_neq dropWhile_neq)

lemma getline_no_delim:
  "d \<notin> set s \<Longrightarrow> good (snd (getline d \<lparr>buf = s, good = True\<rparr>)) = False"
  by (simp add: getline_def dropWhile_neq_Nil del: dropWhile_eq_Nil_conv)

lemma field_value_cases:
  assumes "field_value s = Some v"
  obtains ds where "s = ds" "ds \<noteq> []" "\<forall>c \<in> set ds. isdigit c" "v = dec_val ds"
  | ds where "s = CHR ''+'' # ds" "ds \<noteq> []" "\<forall>c \<in> set ds. isdigit c" "v = dec_val ds"
  | ds where "s = CHR ''-'' # ds" "ds \<noteq> []" "\<forall>c \<in> set ds. isdigit c" "v = - dec_val ds"
  using assms
  by (cases s) (auto simp: field_value_def Let_def list_all_iff split: if_splits)

lemma extract_num_digits:
  assumes ws: "\<forall>c \<in> set ws. isspace c" and ds: "ds \<noteq> []" "\<forall>c \<in> set ds. isdigit c"
    and c: "\<not> isdigit c" and r: "lo \<le> dec_val ds" "dec_val ds \<le> hi"
  shows "extract_num lo hi \<lparr>buf = ws @ ds @ c # rest, good = True\<rparr>
           = (dec_val ds, \<lparr>buf = c # rest, good = True\<rparr>)"
proof -
  obtain x xs where x: "ds = x # xs" using ds(1) by (cases ds) auto
  have dx: "isdigit x" and dxs: "\<forall>c \<in> set xs. isdigit c" using ds(2) x by auto
  have 1: "dropWhile isspace (ws @ x # xs @ c # rest) = x # xs @ c # rest"
    using ws dx by (simp add: dropWhile_run isdigit_not_isspace)
  have 2: "takeWhile isdigit (xs @ c # rest) = xs" "dropWhile isdigit (xs @ c # rest) = c # rest"
    using dxs c by (simp_all add: takeWhile_run dropWhile_run)
  show ?thesis
    using r dx isdigit_not_sign [OF dx]
    by (simp add: extract_num_def x 1 2 Let_def)
qed

lemma extract_num_signed:
  assumes ws: "\<forall>c \<in> set ws. isspace c" and ds: "ds \<noteq> []" "\<forall>c \<in> set ds. isdigit c"
    and c: "\<not> isdigit c" and sg: "sg = CHR ''-'' \<or> sg = CHR ''+''"
    and r: "lo \<le> (if sg = CHR ''-'' then - dec_val ds else dec_val ds)"
           "(if sg = CHR ''-'' then - dec_val ds else dec_val ds) \<le> hi"
  shows "extract_num lo hi \<lparr>buf = ws @ sg # ds @ c # rest, good = True\<rparr>
           = (if sg = CHR ''-'' then - dec_val ds else dec_val ds, \<lparr>buf = c # rest, good = True\<rparr>)"
proof -
  have nsp: "\<not> isspace sg" using sg sign_not_isspace by auto
  have 1: "dropWhile isspace (ws @ sg # ds @ c # rest) = sg # ds @ c # rest"
    using ws nsp by (simp add: dropWhile_run)
  have 2: "takeWhile isdigit (ds @ c # rest) = ds" "dropWhile isdigit (ds @ c # rest) = c # rest"
    using ds(2) c by (simp_all add: takeWhile_run dropWhile_run)
  show ?thesis
    using r sg ds(1) by (auto simp: extract_num_def 1 2 Let_def)
qed

lemma extract_num_field:
  assumes ws: "\<forall>c \<in> set ws. isspace c" and fv: "field_value s = Some v"
    and c: "\<not> isdigit c" and r: "lo \<le> v" "v \<le> hi"
  shows "extract_num lo hi \<lparr>buf = ws @ s @ c # rest, good = True\<rparr>
           = (v, \<lparr>buf = c # rest, good = True\<rparr>)"
  using fv
proof (cases rule: field_value_cases)
  case (1 ds)
  then show ?thesis using extract_num_digits [OF ws _ _ c, of ds lo hi rest] r by simp
next
  case (2 ds)
  then show ?thesis
    using extract_num_signed [OF ws _ _ c, of ds "CHR ''+''" lo hi rest] r by simp
next
  case (3 ds)
  then show ?thesis
    using extract_num_signed [OF ws _ _ c, of ds "CHR ''-''" lo hi rest] r by simp
qed

lemma field_value_show_int: "field_value (show_int v) = Some v"
proof (cases "v < 0")
  case True
  then have "0 \<le> - v" by simp
  then show ?thesis
    using True show_dec_digits [of "- v"] dec_val_show_dec [of "- v"] show_dec_not_Nil [of "- v"]
    by (simp add: field_value_def show_int_def list_all_iff)
next
  case False
  then have nn: "0 \<le> v" by simp
  obtain x xs where x: "show_dec v = x # xs" using show_dec_not_Nil [of v] by (cases "show_dec v") auto
  have "isdigit x" using show_dec_digits [OF nn] x by simp
  then have "x \<noteq> CHR ''-'' \<and> x \<noteq> CHR ''+''" by (rule isdigit_not_sign)
  then show ?thesis
    using False show_dec_digits [OF nn] dec_val_show_dec [OF nn] x
    by (simp add: field_value_def show_int_def list_all_iff)
qed

lemma ignore_line_newline:
  "CHR 0x0A \<notin> set junk \<Longrightarrow>
   ignore_line \<lparr>buf = junk @ CHR 0x0A # rest, good = True\<rparr> = \<lparr>buf = rest, good = True\<rparr>"
  by (simp add: ignore_line_def dropWhile_neq)

section \<open>One line of the file\<close>

lemma file_line_not_Nil: "file_line desc pf cf df @ rest \<noteq> []"
  by (simp add: file_line_def)

lemma space_isspace: "\<forall>c \<in> set '' ''. isspace c"
  by (simp add: isspace_def)

lemma space_not_isdigit: "\<not> isdigit CHR '' ''" "\<not> isdigit CHR 0x0A"
  by (simp_all add: isdigit_def)

lemma extract_int_field:
  assumes "\<forall>c \<in> set ws. isspace c" "field_value s = Some v" "\<not> isdigit c" "in_int v"
  shows "extract_int \<lparr>buf = ws @ s @ c # rest, good = True\<rparr> = (v, \<lparr>buf = c # rest, good = True\<rparr>)"
  using assms extract_num_field [of ws s v c "- (2 ^ 31)" "2 ^ 31 - 1" rest]
  by (simp add: extract_int_def in_int_def)

lemma extract_time_t_field:
  assumes "\<forall>c \<in> set ws. isspace c" "field_value s = Some v" "\<not> isdigit c" "in_time_t v"
  shows "extract_time_t \<lparr>buf = ws @ s @ c # rest, good = True\<rparr>
           = (word_of_int v, \<lparr>buf = c # rest, good = True\<rparr>)"
  using assms extract_num_field [of ws s v c "- (2 ^ 63)" "2 ^ 63 - 1" rest]
  by (simp add: extract_time_t_def in_time_t_def)

lemma read_turn_line:
  assumes d: "CHR ''|'' \<notin> set desc"
    and p: "field_value pf = Some p" "in_int p"
    and c: "field_value cf = Some c" "in_int c"
    and u: "field_value df = Some u" "in_time_t u"
  shows "read_turn \<lparr>buf = file_line desc pf cf df @ rest, good = True\<rparr>
           = (if desc = [] \<or> p < 1 \<or> 5 < p then Skip \<lparr>buf = rest, good = True\<rparr>
              else Line desc p c (word_of_int u) \<lparr>buf = rest, good = True\<rparr>)"
proof -
  have 1: "getline CHR ''|'' \<lparr>buf = desc @ CHR ''|'' # (pf @ CHR '' '' # cf @ CHR '' '' # df @ CHR 0x0A # rest), good = True\<rparr>
      = (desc, \<lparr>buf = pf @ CHR '' '' # cf @ CHR '' '' # df @ CHR 0x0A # rest, good = True\<rparr>)"
    using d by (rule getline_field)
  have 2: "extract_int \<lparr>buf = pf @ CHR '' '' # cf @ CHR '' '' # df @ CHR 0x0A # rest, good = True\<rparr>
      = (p, \<lparr>buf = CHR '' '' # cf @ CHR '' '' # df @ CHR 0x0A # rest, good = True\<rparr>)"
    using extract_int_field [of "[]" pf p "CHR '' ''"] p space_not_isdigit by simp
  have 3: "extract_int \<lparr>buf = CHR '' '' # cf @ CHR '' '' # df @ CHR 0x0A # rest, good = True\<rparr>
      = (c, \<lparr>buf = CHR '' '' # df @ CHR 0x0A # rest, good = True\<rparr>)"
    using extract_int_field [of "'' ''" cf c "CHR '' ''"] c space_not_isdigit space_isspace by simp
  have 4: "extract_time_t \<lparr>buf = CHR '' '' # df @ CHR 0x0A # rest, good = True\<rparr>
      = (word_of_int u, \<lparr>buf = CHR 0x0A # rest, good = True\<rparr>)"
    using extract_time_t_field [of "'' ''" df u "CHR 0x0A"] u space_not_isdigit space_isspace by simp
  have 5: "ignore_line \<lparr>buf = CHR 0x0A # rest, good = True\<rparr> = \<lparr>buf = rest, good = True\<rparr>"
    using ignore_line_newline [of "[]" rest] by simp
  show ?thesis
    by (simp add: read_turn_def file_line_def 1 2 3 4 5)
qed

lemma load_loop_unfold:
  "good file \<Longrightarrow> buf file \<noteq> [] \<Longrightarrow>
   load_loop file w =
     (case read_turn file of
        Stop \<Rightarrow> w
      | Skip f' \<Rightarrow>
          load_loop f' (w\<lparr>cerr := cerr w @ ''Skipping invalid task from file.\<newline>''\<rparr>)
      | Line desc prioInt compInt due f' \<Rightarrow>
          load_loop f'
            (w\<lparr>nextId := nextId w + 1,
               tasks := tasks w @ [\<lparr>task_id = nextId w, description = desc, priority = prioInt,
                          completed = (compInt \<noteq> 0), dueDate = due\<rparr>]\<rparr>))"
  by (subst load_loop.simps) (simp add: peek_def new_Task_def split: turn.splits)

lemma load_loop_line:
  assumes d: "CHR ''|'' \<notin> set desc"
    and p: "field_value pf = Some p" "in_int p"
    and c: "field_value cf = Some c" "in_int c"
    and u: "field_value df = Some u" "in_time_t u"
  shows "load_loop \<lparr>buf = file_line desc pf cf df @ rest, good = True\<rparr> w
           = (if desc = [] \<or> p < 1 \<or> 5 < p
              then load_loop \<lparr>buf = rest, good = True\<rparr>
                     (w\<lparr>cerr := cerr w @ ''Skipping invalid task from file.\<newline>''\<rparr>)
              else load_loop \<lparr>buf = rest, good = True\<rparr>
                     (w\<lparr>nextId := nextId w + 1,
                        tasks := tasks w @ [\<lparr>task_id = nextId w, description = desc, priority = p,
                                   completed = (c \<noteq> 0), dueDate = word_of_int u\<rparr>]\<rparr>))"
proof -
  let ?f = "\<lparr>buf = file_line desc pf cf df @ rest, good = True\<rparr>"
  have g: "good ?f" "buf ?f \<noteq> []" by (simp_all add: file_line_def)
  show ?thesis
    unfolding load_loop_unfold [OF g] read_turn_line [OF assms]
    by (cases "desc = [] \<or> p < 1 \<or> 5 < p") simp_all
qed

lemma load_loop_end: "load_loop \<lparr>buf = [], good = True\<rparr> w = w"
  by (subst load_loop.simps) (simp add: peek_def)

section \<open>Saving leaves the store alone\<close>

lemma save_loop_frame:
  "tasks (snd (save_loop ts r)) = tasks (snd r) \<and> nextId (snd (save_loop ts r)) = nextId (snd r)
     \<and> disk (snd (save_loop ts r)) = disk (snd r) \<and> locked (snd (save_loop ts r)) = locked (snd r)"
proof (induction ts arbitrary: r)
  case Nil
  show ?case by simp
next
  case (Cons task ts)
  obtain out w where r: "r = (out, w)" by (cases r)
  show ?case
    by (simp add: r Cons.IH split: prod.splits bool.splits)
qed

lemma saveTasksToFile_tasks:
  "tasks (saveTasksToFile filename w) = tasks w \<and> nextId (saveTasksToFile filename w) = nextId w"
proof -
  obtain out w' where s: "save_loop (tasks w) ([], w) = (out, w')"
    by (cases "save_loop (tasks w) ([], w)")
  have "tasks w' = tasks w" "nextId w' = nextId w"
    using save_loop_frame [of "tasks w" "([], w)"] s by simp_all
  then show ?thesis by (simp add: saveTasksToFile_def s)
qed

text \<open>
  Claim C9. \<^verbatim>\<open>saveTasksToFile\<close> never changes the in-memory state: for every
  collection and every path, the tasks and the next-id counter after the call are the ones
  before it. When the file cannot be opened for writing, the only effect at all is the
  error message on \<^verbatim>\<open>cerr\<close>.
\<close>

theorem saveTasksToFile_frame:
  "tasks (saveTasksToFile filename w) = tasks w
     \<and> nextId (saveTasksToFile filename w) = nextId w
     \<and> (locked w filename \<longrightarrow>
          saveTasksToFile filename w
            = w\<lparr>cerr := cerr w @ ''Error: Unable to open file for saving.\<newline>''\<rparr>)"
proof (intro conjI impI)
  show "tasks (saveTasksToFile filename w) = tasks w"
    and "nextId (saveTasksToFile filename w) = nextId w"
    using saveTasksToFile_tasks [of filename w] by simp_all
next
  assume "locked w filename"
  then show "saveTasksToFile filename w
      = w\<lparr>cerr := cerr w @ ''Error: Unable to open file for saving.\<newline>''\<rparr>"
    by (simp add: saveTasksToFile_def)
qed

theorem saveTasksToFile_frame_witness:
  "tasks (saveTasksToFile ''tasks.txt''
       \<lparr>tasks = [\<lparr>task_id = 1, description = ''a'', priority = 3, completed = False, dueDate = 0\<rparr>],
        nextId = 2, cerr = [], disk = (\<lambda>p. None), locked = (\<lambda>p. True)\<rparr>)
     = [\<lparr>task_id = 1, description = ''a'', priority = 3, completed = False, dueDate = 0\<rparr>]
   \<and> cerr (saveTasksToFile ''tasks.txt''
       \<lparr>tasks = [\<lparr>task_id = 1, description = ''a'', priority = 3, completed = False, dueDate = 0\<rparr>],
        nextId = 2, cerr = [], disk = (\<lambda>p. None), locked = (\<lambda>p. True)\<rparr>)
     = ''Error: Unable to open file for saving.\<newline>''"
  using saveTasksToFile_frame [of "''tasks.txt''"
      "\<lparr>tasks = [\<lparr>task_id = 1, description = ''a'', priority = 3, completed = False, dueDate = 0\<rparr>],
        nextId = 2, cerr = [], disk = (\<lambda>p. None), locked = (\<lambda>p. True)\<rparr>"]
  by simp

section \<open>Updating a task\<close>

text \<open>
  Claim C1 says that an update with a valid new description and an invalid priority
  leaves the record entirely unchanged. \<^verbatim>\<open>updateTask\<close> assigns the description before it
  validates the priority, so on the task 1 with the description \<open>old\<close> and the priority 3,
  the call with the description \<open>new\<close> and the priority 6 reports that the update failed
  and returns with the description already replaced.
\<close>

theorem updateTask_partial_application:
  "updateTask 1 (Some ''new'') (Some 6) None None
       \<lparr>tasks = [\<lparr>task_id = 1, description = ''old'', priority = 3, completed = False, dueDate = 0\<rparr>],
        nextId = 2, cerr = [], disk = (\<lambda>p. None), locked = (\<lambda>p. False)\<rparr>
     = \<lparr>tasks = [\<lparr>task_id = 1, description = ''new'', priority = 3, completed = False, dueDate = 0\<rparr>],
        nextId = 2,
        cerr = ''Error: Priority must be between 1 and 5.\<newline>Update failed due to invalid priority.\<newline>'',
        disk = (\<lambda>p. None), locked = (\<lambda>p. False)\<rparr>"
  by (simp add: updateTask_def update_body_def update_desc_def update_prio_def validateTask_def)

section \<open>What the loading loop keeps\<close>

lemma load_loop_appends:
  "\<exists>new. tasks (load_loop f w) = tasks w @ new
      \<and> map task_id new = map (\<lambda>i. nextId w + int i) [0..<length new]
      \<and> nextId (load_loop f w) = nextId w + int (length new)
      \<and> disk (load_loop f w) = disk w \<and> locked (load_loop f w) = locked w"
proof (induction f w rule: load_loop.induct)
  case (1 f w)
  show ?case
  proof (cases "\<not> good f \<or> peek f = None")
    case True
    then have "load_loop f w = w" by (subst load_loop.simps) simp
    then show ?thesis by simp
  next
    case False
    then have g: "good f" "buf f \<noteq> []" by (auto simp: peek_def split: if_splits)
    show ?thesis
    proof (cases "read_turn f")
      case Stop
      then show ?thesis by (simp add: load_loop_unfold [OF g])
    next
      case (Skip f')
      from "1.IH"(1) [OF False Skip]
      show ?thesis by (simp add: load_loop_unfold [OF g] Skip)
    next
      case (Line desc prioInt compInt due f')
      let ?t = "\<lparr>task_id = nextId w, description = desc, priority = prioInt,
                 completed = (compInt \<noteq> 0), dueDate = due\<rparr>"
      let ?w = "w\<lparr>nextId := nextId w + 1, tasks := tasks w @ [?t]\<rparr>"
      have "\<exists>new. tasks (load_loop f' ?w) = tasks ?w @ new
          \<and> map task_id new = map (\<lambda>i. nextId ?w + int i) [0..<length new]
          \<and> nextId (load_loop f' ?w) = nextId ?w + int (length new)
          \<and> disk (load_loop f' ?w) = disk ?w \<and> locked (load_loop f' ?w) = locked ?w"
        using "1.IH"(2) [OF False Line, of "fst (new_Task desc prioInt due w)" "snd (new_Task desc prioInt due w)"]
        by (simp add: new_Task_def)
      then obtain new where new: "tasks (load_loop f' ?w) = tasks w @ ?t # new"
        "map task_id new = map (\<lambda>i. nextId w + 1 + int i) [0..<length new]"
        "nextId (load_loop f' ?w) = nextId w + 1 + int (length new)"
        "disk (load_loop f' ?w) = disk w" "locked (load_loop f' ?w) = locked w"
        by auto
      have "map task_id (?t # new) = map (\<lambda>i. nextId w + int i) [0..<length (?t # new)]"
        using new(2) by (simp add: upt_conv_Cons map_Suc_upt [symmetric] del: upt_Suc)
      with new show ?thesis
        by (simp only: load_loop_unfold [OF g] Line turn.case) (rule exI [of _ "?t # new"], simp)
    qed
  qed
qed


section \<open>Loading a file that cannot be opened\<close>

text \<open>
  Claim C2 says that loading a missing file leaves the empty collection whatever the
  collection was before. \<^verbatim>\<open>loadTasksFromFile\<close> returns before \<^verbatim>\<open>tasks.clear()\<close> when the
  file is not open: a collection of one task is still there after the call.
\<close>

theorem loadTasksFromFile_missing_keeps_tasks:
  "tasks (loadTasksFromFile ''tasks.txt''
       \<lparr>tasks = [\<lparr>task_id = 1, description = ''a'', priority = 3, completed = False, dueDate = 0\<rparr>],
        nextId = 2, cerr = [], disk = (\<lambda>p. None), locked = (\<lambda>p. False)\<rparr>)
     = [\<lparr>task_id = 1, description = ''a'', priority = 3, completed = False, dueDate = 0\<rparr>]"
  by (simp add: loadTasksFromFile_def)

text \<open>
  Claim C2, amended. Loading a path whose file cannot be opened emits no message and leaves
  the collection, the next-id counter and everything else as they were; the result is the
  empty collection when the collection was empty before, as at the start of the program.
\<close>

theorem loadTasksFromFile_missing_file:
  "disk w filename = None \<Longrightarrow> loadTasksFromFile filename w = w"
  by (simp add: loadTasksFromFile_def)

theorem loadTasksFromFile_missing_file_witness:
  "loadTasksFromFile ''tasks.txt'' (initial (\<lambda>p. None) (\<lambda>p. False)) = initial (\<lambda>p. None) (\<lambda>p. False)
     \<and> tasks (initial (\<lambda>p. None) (\<lambda>p. False)) = []"
  using loadTasksFromFile_missing_file [of "initial (\<lambda>p. None) (\<lambda>p. False)" "''tasks.txt''"]
  by (simp add: initial_def)

section \<open>Ids of the loaded tasks\<close>





section \<open>Lines that are skipped and lines that end the load\<close>

lemma extract_num_not_numeric:
  "not_numeric s \<Longrightarrow> \<not> good (snd (extract_num lo hi \<lparr>buf = s, good = True\<rparr>))"
  by (cases "dropWhile isspace s")
     (simp_all add: not_numeric_def extract_num_def Let_def del: dropWhile_eq_Nil_conv)

lemma not_numeric_space: "not_numeric s \<Longrightarrow> not_numeric (CHR '' '' # s)"
  by (simp add: not_numeric_def isspace_def)

lemma extract_int_not_numeric:
  "not_numeric s \<Longrightarrow> \<not> good (snd (extract_int \<lparr>buf = s, good = True\<rparr>))"
  by (simp add: extract_int_def extract_num_not_numeric)

lemma extract_time_t_not_numeric:
  "not_numeric s \<Longrightarrow> \<not> good (snd (extract_time_t \<lparr>buf = s, good = True\<rparr>))"
  using extract_num_not_numeric [of s "- (2 ^ 63)" "2 ^ 63 - 1"]
  by (cases "extract_num (- (2 ^ 63)) (2 ^ 63 - 1) \<lparr>buf = s, good = True\<rparr>")
     (simp add: extract_time_t_def)

lemma read_turn_not_numeric:
  assumes d: "CHR ''|'' \<notin> set desc"
    and p: "field_value pf = Some p" "in_int p"
    and c: "field_value cf = Some c" "in_int c"
    and s: "not_numeric s"
  shows "read_turn \<lparr>buf = desc @ ''|'' @ s, good = True\<rparr> = Stop"
    and "read_turn \<lparr>buf = desc @ ''|'' @ pf @ '' '' @ s, good = True\<rparr> = Stop"
    and "read_turn \<lparr>buf = desc @ ''|'' @ pf @ '' '' @ cf @ '' '' @ s, good = True\<rparr> = Stop"
proof -
  have g: "getline CHR ''|'' \<lparr>buf = desc @ CHR ''|'' # r, good = True\<rparr>
      = (desc, \<lparr>buf = r, good = True\<rparr>)" for r
    using d by (rule getline_field)
  have s': "not_numeric (CHR '' '' # s)" using s by (rule not_numeric_space)
  have e1: "extract_int \<lparr>buf = pf @ CHR '' '' # r, good = True\<rparr>
      = (p, \<lparr>buf = CHR '' '' # r, good = True\<rparr>)" for r
    using extract_int_field [of "[]" pf p "CHR '' ''"] p space_not_isdigit by simp
  have e2: "extract_int \<lparr>buf = CHR '' '' # cf @ CHR '' '' # r, good = True\<rparr>
      = (c, \<lparr>buf = CHR '' '' # r, good = True\<rparr>)" for r
    using extract_int_field [of "'' ''" cf c "CHR '' ''"] c space_not_isdigit space_isspace by simp
  show "read_turn \<lparr>buf = desc @ ''|'' @ s, good = True\<rparr> = Stop"
    using extract_int_not_numeric [OF s]
    by (cases "extract_int \<lparr>buf = s, good = True\<rparr>") (simp add: read_turn_def g)
  show "read_turn \<lparr>buf = desc @ ''|'' @ pf @ '' '' @ s, good = True\<rparr> = Stop"
    using extract_int_not_numeric [OF s']
    by (cases "extract_int \<lparr>buf = CHR '' '' # s, good = True\<rparr>") (simp add: read_turn_def g e1)
  show "read_turn \<lparr>buf = desc @ ''|'' @ pf @ '' '' @ cf @ '' '' @ s, good = True\<rparr> = Stop"
    using extract_time_t_not_numeric [OF s']
    by (cases "extract_time_t \<lparr>buf = CHR '' '' # s, good = True\<rparr>")
       (simp add: read_turn_def g e1 e2)
qed

lemma load_loop_Stop: "read_turn f = Stop \<Longrightarrow> load_loop f w = w"
  by (subst load_loop.simps) simp

text \<open>
  Claim C3, amended. A line, ended by a newline, whose three numeric fields can be read and
  whose description is empty or whose priority is outside 1 to 5 is skipped with the
  diagnostic, and the load goes on with the text after it exactly as it would from the
  start of a file, so the well-formed lines after it are still loaded. A line where no
  number can be read at the place of the priority, of the completion flag or of the due
  date ends the load there: nothing after it is read and nothing is written to \<^verbatim>\<open>cerr\<close>.
\<close>

theorem load_loop_bad_line:
  assumes d: "CHR ''|'' \<notin> set desc"
    and p: "field_value pf = Some p" "in_int p"
    and c: "field_value cf = Some c" "in_int c"
    and u: "field_value df = Some u" "in_time_t u"
  shows "(desc = [] \<or> p < 1 \<or> 5 < p \<longrightarrow>
            load_loop \<lparr>buf = file_line desc pf cf df @ rest, good = True\<rparr> w
              = load_loop \<lparr>buf = rest, good = True\<rparr>
                  (w\<lparr>cerr := cerr w @ ''Skipping invalid task from file.\<newline>''\<rparr>))
       \<and> (not_numeric s \<longrightarrow>
            load_loop \<lparr>buf = desc @ ''|'' @ s, good = True\<rparr> w = w
          \<and> load_loop \<lparr>buf = desc @ ''|'' @ pf @ '' '' @ s, good = True\<rparr> w = w
          \<and> load_loop \<lparr>buf = desc @ ''|'' @ pf @ '' '' @ cf @ '' '' @ s, good = True\<rparr> w = w)"
proof (intro conjI impI)
  assume "desc = [] \<or> p < 1 \<or> 5 < p"
  then show "load_loop \<lparr>buf = file_line desc pf cf df @ rest, good = True\<rparr> w
      = load_loop \<lparr>buf = rest, good = True\<rparr>
          (w\<lparr>cerr := cerr w @ ''Skipping invalid task from file.\<newline>''\<rparr>)"
    by (simp only: load_loop_line [OF assms] if_True)
next
  assume s: "not_numeric s"
  show "load_loop \<lparr>buf = desc @ ''|'' @ s, good = True\<rparr> w = w"
    by (rule load_loop_Stop) (rule read_turn_not_numeric(1) [OF d p c s])
  show "load_loop \<lparr>buf = desc @ ''|'' @ pf @ '' '' @ s, good = True\<rparr> w = w"
    by (rule load_loop_Stop) (rule read_turn_not_numeric(2) [OF d p c s])
  show "load_loop \<lparr>buf = desc @ ''|'' @ pf @ '' '' @ cf @ '' '' @ s, good = True\<rparr> w = w"
    by (rule load_loop_Stop) (rule read_turn_not_numeric(3) [OF d p c s])
qed

theorem load_loop_bad_line_witness:
  "load_loop \<lparr>buf = ''b|9 0 1\<newline>c|1 0 2\<newline>'', good = True\<rparr> (initial (\<lambda>p. None) (\<lambda>p. False))
     = load_loop \<lparr>buf = ''c|1 0 2\<newline>'', good = True\<rparr>
         ((initial (\<lambda>p. None) (\<lambda>p. False))\<lparr>cerr := ''Skipping invalid task from file.\<newline>''\<rparr>)
   \<and> load_loop \<lparr>buf = ''b|x 0 1\<newline>c|1 0 2\<newline>'', good = True\<rparr> (initial (\<lambda>p. None) (\<lambda>p. False))
     = initial (\<lambda>p. None) (\<lambda>p. False)"
proof -
  have h: "CHR ''|'' \<notin> set ''b''" "field_value ''9'' = Some 9" "in_int 9"
    "field_value ''0'' = Some 0" "in_int 0" "field_value ''1'' = Some 1" "in_time_t 1"
    by (simp_all add: field_value_def dec_val_def isdigit_def in_int_def in_time_t_def)
  have n: "not_numeric ''x 0 1\<newline>c|1 0 2\<newline>''"
    by (simp add: not_numeric_def isspace_def isdigit_def)
  show ?thesis
    using load_loop_bad_line [OF h, of "''c|1 0 2\<newline>''" "initial (\<lambda>p. None) (\<lambda>p. False)"
        "''x 0 1\<newline>c|1 0 2\<newline>''"] n
    by (simp add: file_line_def initial_def)
qed

text \<open>
  Claim C3 says that a line with a numeric trailer that cannot be parsed is skipped with a
  diagnostic and that the lines after it are still loaded. With \<open>x\<close> at the place of the
  priority in the first line, the well-formed second line is not loaded and no diagnostic
  is written.
\<close>

theorem load_stops_at_unparsable_line:
  "tasks (loadTasksFromFile ''tasks.txt''
       (initial (\<lambda>p. Some ''a|x 0 1\<newline>b|3 0 1\<newline>'') (\<lambda>p. False))) = []
   \<and> cerr (loadTasksFromFile ''tasks.txt''
       (initial (\<lambda>p. Some ''a|x 0 1\<newline>b|3 0 1\<newline>'') (\<lambda>p. False))) = []"
  by code_simp

section \<open>The completion flag of a loaded line\<close>

text \<open>
  Claim C10. The completion field of a line is read as an integer and turned into a
  boolean by the test for nonzero: a valid line (ended by a newline, with a non-empty
  description and a priority from 1 to 5) whose completion field reads as the integer
  \<open>c\<close> (any value of an \<^verbatim>\<open>int\<close>, such as 2 or -1) is not rejected; its task is appended
  with \<open>completed = (c \<noteq> 0)\<close>, so with \<open>True\<close> for every nonzero \<open>c\<close> and \<open>False\<close> for 0, and
  it is the task at that position when the load ends.
\<close>

theorem load_loop_completed_nonzero:
  assumes "CHR ''|'' \<notin> set desc" "desc \<noteq> []"
    and "field_value pf = Some p" "1 \<le> p" "p \<le> 5"
    and "field_value cf = Some c" "in_int c"
    and "field_value df = Some u" "in_time_t u"
  shows "load_loop \<lparr>buf = file_line desc pf cf df @ rest, good = True\<rparr> w
           = load_loop \<lparr>buf = rest, good = True\<rparr>
               (w\<lparr>nextId := nextId w + 1,
                  tasks := tasks w @ [\<lparr>task_id = nextId w, description = desc, priority = p,
                             completed = (c \<noteq> 0), dueDate = word_of_int u\<rparr>]\<rparr>)
       \<and> tasks (load_loop \<lparr>buf = file_line desc pf cf df @ rest, good = True\<rparr> w) ! length (tasks w)
           = \<lparr>task_id = nextId w, description = desc, priority = p,
               completed = (c \<noteq> 0), dueDate = word_of_int u\<rparr>"
proof -
  let ?t = "\<lparr>task_id = nextId w, description = desc, priority = p,
             completed = (c \<noteq> 0), dueDate = word_of_int u\<rparr>"
  let ?w = "w\<lparr>nextId := nextId w + 1, tasks := tasks w @ [?t]\<rparr>"
  have p: "in_int p" using assms(4,5) by (simp add: in_int_def)
  have eq: "load_loop \<lparr>buf = file_line desc pf cf df @ rest, good = True\<rparr> w
      = load_loop \<lparr>buf = rest, good = True\<rparr> ?w"
    using assms(2,4,5)
    by (simp add: load_loop_line [OF assms(1) assms(3) p assms(6) assms(7) assms(8) assms(9)])
  obtain new where "tasks (load_loop \<lparr>buf = rest, good = True\<rparr> ?w) = tasks ?w @ new"
    using load_loop_appends [of "\<lparr>buf = rest, good = True\<rparr>" ?w] by blast
  then have "tasks (load_loop \<lparr>buf = rest, good = True\<rparr> ?w) ! length (tasks w) = ?t"
    by (simp add: nth_append)
  with eq show ?thesis by simp
qed

theorem load_loop_completed_nonzero_witness:
  "tasks (load_loop \<lparr>buf = ''t|3 2 100\<newline>u|1 -1 7\<newline>'', good = True\<rparr> (initial (\<lambda>p. None) (\<lambda>p. False))) ! 0
     = \<lparr>task_id = 1, description = ''t'', priority = 3, completed = True, dueDate = 100\<rparr>"
proof -
  have h: "CHR ''|'' \<notin> set ''t''" "''t'' \<noteq> []" "field_value ''3'' = Some 3" "(1::int) \<le> 3" "(3::int) \<le> 5"
    "field_value ''2'' = Some 2" "in_int 2" "field_value ''100'' = Some 100" "in_time_t 100"
    by (simp_all add: field_value_def dec_val_def isdigit_def in_int_def in_time_t_def)
  show ?thesis
    using load_loop_completed_nonzero [OF h, of "''u|1 -1 7\<newline>''"
        "initial (\<lambda>p. None) (\<lambda>p. False)", THEN conjunct2]
    by (simp add: file_line_def initial_def)
qed

section \<open>Saving and loading again\<close>

lemma task_line_file_line:
  "task_line task = file_line (description task) (show_int (priority task))
     (show_bool (completed task)) (show_int (sint (dueDate task)))"
  by (simp add: task_line_def file_line_def)

lemma field_value_show_bool: "field_value (show_bool b) = Some (if b then 1 else 0)"
  by (simp add: field_value_def show_bool_def dec_val_def isdigit_def)

lemma in_time_t_sint: "in_time_t (sint (d :: time_t))"
  using sint_ge [of d] sint_lt [of d] by (simp add: in_time_t_def)

lemma validateTask_valid:
  "desc \<noteq> [] \<Longrightarrow> 1 \<le> prio \<Longrightarrow> prio \<le> 5 \<Longrightarrow> validateTask desc prio err = (True, err)"
  by (simp add: validateTask_def)

lemma save_loop_valid:
  "\<forall>t \<in> set ts. description t \<noteq> [] \<and> 1 \<le> priority t \<and> priority t \<le> 5 \<Longrightarrow>
   save_loop ts (out, w) = (out @ concat (map task_line ts), w)"
  by (induction ts arbitrary: out) (simp_all add: validateTask_valid)

lemma task_rebuild:
  "\<lparr>task_id = k, description = description t, priority = priority t, completed = completed t,
     dueDate = dueDate t\<rparr> = (t :: Task)\<lparr>task_id := k\<rparr>"
  by (cases t) simp

lemma flag_nonzero: "((if b then (1::int) else 0) \<noteq> 0) = b"
  by simp

lemma load_loop_task_line:
  assumes "description t \<noteq> []" "CHR ''|'' \<notin> set (description t)"
    "1 \<le> priority t" "priority t \<le> 5"
  shows "load_loop \<lparr>buf = task_line t @ rest, good = True\<rparr> w
           = load_loop \<lparr>buf = rest, good = True\<rparr>
               (w\<lparr>nextId := nextId w + 1, tasks := tasks w @ [t\<lparr>task_id := nextId w\<rparr>]\<rparr>)"
proof -
  have p: "in_int (priority t)" using assms(3,4) by (simp add: in_int_def)
  have c: "in_int (if completed t then 1 else 0)" by (simp add: in_int_def)
  show ?thesis
    unfolding task_line_file_line
      load_loop_line [OF assms(2) field_value_show_int p field_value_show_bool c
        field_value_show_int in_time_t_sint]
    using assms(1,3,4) by (simp add: flag_nonzero task_rebuild)
qed

lemma load_loop_task_lines:
  "\<forall>t \<in> set ts. description t \<noteq> [] \<and> CHR ''|'' \<notin> set (description t)
      \<and> 1 \<le> priority t \<and> priority t \<le> 5 \<Longrightarrow>
   load_loop \<lparr>buf = concat (map task_line ts) @ rest, good = True\<rparr> w
     = load_loop \<lparr>buf = rest, good = True\<rparr>
         (w\<lparr>nextId := nextId w + int (length ts), tasks := tasks w @ renumber (nextId w) ts\<rparr>)"
proof (induction ts arbitrary: w)
  case Nil
  show ?case by simp
next
  case (Cons t ts)
  then show ?case by (simp add: load_loop_task_line add.assoc)
qed

lemma task_fields_renumber: "map task_fields (renumber k ts) = map task_fields ts"
  by (induction ts arbitrary: k) (simp_all add: task_fields_def)

lemma task_id_renumber: "map task_id (renumber k ts) = map (\<lambda>i. k + int i) [0..<length ts]"
proof (induction ts arbitrary: k)
  case Nil
  show ?case by simp
next
  case (Cons t ts)
  show ?case
    by (simp add: Cons.IH upt_conv_Cons map_Suc_upt [symmetric] del: upt_Suc)
qed

text \<open>
  Claim C6. Saving and then loading the same file gives the collection back: when the file
  can be written and every task is valid (a non-empty description, a priority from 1 to 5)
  and has no \<open>|\<close> in its description, the reloaded collection has the same tasks in the same
  order, with the same descriptions, priorities, completion flags and due dates; only the
  ids are new, numbered in line order from the counter. In particular the empty collection
  comes back empty.
\<close>

theorem save_load_round_trip:
  assumes "\<not> locked w filename"
    and "\<forall>t \<in> set (tasks w). description t \<noteq> [] \<and> CHR ''|'' \<notin> set (description t)
            \<and> 1 \<le> priority t \<and> priority t \<le> 5"
  shows "tasks (loadTasksFromFile filename (saveTasksToFile filename w))
           = renumber (nextId w) (tasks w)
       \<and> map task_fields (tasks (loadTasksFromFile filename (saveTasksToFile filename w)))
           = map task_fields (tasks w)"
proof -
  have v: "\<forall>t \<in> set (tasks w). description t \<noteq> [] \<and> 1 \<le> priority t \<and> priority t \<le> 5"
    using assms(2) by simp
  let ?out = "concat (map task_line (tasks w))"
  let ?s = "w\<lparr>disk := (disk w)(filename \<mapsto> ?out)\<rparr>"
  have s: "saveTasksToFile filename w = ?s"
    using assms(1) by (simp add: saveTasksToFile_def save_loop_valid [OF v])
  have l: "load_loop \<lparr>buf = ?out, good = True\<rparr> (?s\<lparr>tasks := []\<rparr>)
      = ?s\<lparr>nextId := nextId w + int (length (tasks w)), tasks := renumber (nextId w) (tasks w)\<rparr>"
    using load_loop_task_lines [OF assms(2), of "[]" "?s\<lparr>tasks := []\<rparr>"]
    by (simp add: load_loop_end)
  have "tasks (loadTasksFromFile filename ?s) = renumber (nextId w) (tasks w)"
    by (simp add: loadTasksFromFile_def Let_def l)
  then show ?thesis by (simp add: s task_fields_renumber)
qed

theorem save_load_round_trip_witness:
  "tasks (loadTasksFromFile ''tasks.txt'' (saveTasksToFile ''tasks.txt''
       \<lparr>tasks = [\<lparr>task_id = 1, description = ''buy milk'', priority = 3, completed = False,
                   dueDate = 1700000000\<rparr>,
                 \<lparr>task_id = 2, description = ''call'', priority = 1, completed = True,
                   dueDate = - 5\<rparr>],
        nextId = 3, cerr = [], disk = (\<lambda>p. None), locked = (\<lambda>p. False)\<rparr>))
     = [\<lparr>task_id = 3, description = ''buy milk'', priority = 3, completed = False,
          dueDate = 1700000000\<rparr>,
        \<lparr>task_id = 4, description = ''call'', priority = 1, completed = True, dueDate = - 5\<rparr>]"
  using save_load_round_trip [of
      "\<lparr>tasks = [\<lparr>task_id = 1, description = ''buy milk'', priority = 3, completed = False,
                   dueDate = 1700000000\<rparr>,
                 \<lparr>task_id = 2, description = ''call'', priority = 1, completed = True,
                   dueDate = - 5\<rparr>],
        nextId = 3, cerr = [], disk = (\<lambda>p. None), locked = (\<lambda>p. False)\<rparr>" "''tasks.txt''"]
  by simp

section \<open>Sorting\<close>






section \<open>The ids a run assigns\<close>


















end
